theory Spec2Isabelle
  imports Main "HOL-Library.Word" "HOL-Library.Char_ord" "HOL-Library.List_Lexorder"
    "HOL-Library.Sublist"
begin

section \<open>generate\_lst.py: paths, walk entries and the two filters\<close>

text \<open>
  The script walks a project root (\<^verbatim>\<open>root.rglob("*")\<close>), filters the entries with
  a compiled ignore matcher, renders the surviving paths as a tree and concatenates the
  surviving files into one document.

  Python strings are modelled as \<^typ>\<open>string\<close> holding the UTF-8 bytes of the text: the
  operations the script uses (\<^verbatim>\<open>endswith("\n")\<close>, \<^verbatim>\<open>replace("\\", "/")\<close>, joining,
  comparison of path segments) behave on the UTF-8 bytes as they do on the code points.

  A relative \<^verbatim>\<open>pathlib.Path\<close> is the list of its segments (\<^verbatim>\<open>path.parts\<close>); the
  empty list is \<^verbatim>\<open>Path('.')\<close>.
\<close>

type_synonym path = "string list"

type_synonym byte = "8 word"

text \<open>\<^verbatim>\<open>sep.join(xs)\<close>\<close>

fun join_with :: "string \<Rightarrow> string list \<Rightarrow> string" where
  "join_with sep [] = []"
| "join_with sep [x] = x"
| "join_with sep (x # y # ys) = x @ sep @ join_with sep (y # ys)"

text \<open>\<^verbatim>\<open>str(path)\<close> on a POSIX host: the segments joined by a slash, and a dot for the empty path.\<close>

definition path_str :: "path \<Rightarrow> string" where
  "path_str p = (if p = [] then ''.'' else join_with ''/'' p)"

text \<open>\<^verbatim>\<open>path.parent\<close> (the parent of \<^verbatim>\<open>Path('.')\<close> is itself) and \<^verbatim>\<open>path.name\<close>.\<close>

definition parent :: "path \<Rightarrow> path" where
  "parent p = butlast p"

definition path_name :: "path \<Rightarrow> string" where
  "path_name p = (if p = [] then [] else last p)"

text \<open>
  What pathlib guarantees of the segments of a path it built: none is empty, none holds a
  slash, none is a single dot.
\<close>

definition valid_path :: "path \<Rightarrow> bool" where
  "valid_path p = list_all (\<lambda>s. s \<noteq> [] \<and> CHR ''/'' \<notin> set s \<and> s \<noteq> ''.'') p"

text \<open>
  One entry yielded by \<^verbatim>\<open>root.rglob("*")\<close>, with everything the script observes of it:
  \<^item> \<open>e_rel\<close>: the result of \<^verbatim>\<open>path.relative_to(root)\<close>, \<open>None\<close> when it raises ValueError;
  \<^item> \<open>e_kind\<close>: what \<^verbatim>\<open>is_file()\<close> and \<^verbatim>\<open>is_dir()\<close> answer;
  \<^item> \<open>e_bytes\<close>: the bytes a binary read gives, \<open>None\<close> when opening or reading raises;
  \<^item> \<open>e_utf8\<close>: the outcome of \<^verbatim>\<open>read_text(encoding="utf-8")\<close>;
  \<^item> \<open>e_cp949\<close>: the outcome of \<^verbatim>\<open>read_text(encoding="cp949")\<close>, \<open>None\<close> when it raises.
\<close>

datatype kind = RegularFile | Directory | Other

datatype read_result = Text string | UnicodeDecodeError | ReadError

record entry =
  e_rel :: "path option"
  e_kind :: kind
  e_bytes :: "byte list option"
  e_utf8 :: read_result
  e_cp949 :: "string option"

definition is_file :: "entry \<Rightarrow> bool" where
  "is_file e = (e_kind e = RegularFile)"

definition is_dir :: "entry \<Rightarrow> bool" where
  "is_dir e = (e_kind e = Directory)"

definition blocksize :: nat where
  "blocksize = 1024"

text \<open>\<^verbatim>\<open>is_binary\<close>: not a file: False; a read that raises: True; else a NUL in the first block.\<close>

definition is_binary :: "entry \<Rightarrow> bool" where
  "is_binary e =
     (if \<not> is_file e then False
      else (case e_bytes e of
              None \<Rightarrow> True
            | Some bs \<Rightarrow> (0::byte) \<in> set (take blocksize bs)))"

definition output_filename :: string where
  "output_filename = ''lst.txt''"

text \<open>
  \<^verbatim>\<open>path.name == name and path.parent == root\<close> for \<^verbatim>\<open>path = root / rel\<close>: the
  relative path is the single segment \<open>name\<close>.
\<close>

definition at_root_named :: "string \<Rightarrow> path \<Rightarrow> bool" where
  "at_root_named name rel = (path_name rel = name \<and> length rel = 1)"

text \<open>
  The inner loop of \<^verbatim>\<open>get_filtered_paths\<close>:
  \<^verbatim>\<open>while str(current) != '.': add(current); current = current.parent\<close>.
\<close>

function add_ancestors :: "path \<Rightarrow> path set \<Rightarrow> path set" where
  "add_ancestors current inc =
     (if path_str current \<noteq> ''.'' then add_ancestors (parent current) (insert current inc)
      else inc)"
  by pat_completeness auto
termination
  by (relation "measure (\<lambda>(current, inc). length current)")
     (auto simp: path_str_def parent_def split: if_splits)

declare add_ancestors.simps [simp del]

text \<open>
  One iteration of the loop of \<^verbatim>\<open>get_filtered_paths\<close> over the walk; \<open>spec\<close> is
  \<^verbatim>\<open>spec.match_file\<close>.
\<close>

definition filtered_step :: "(string \<Rightarrow> bool) \<Rightarrow> path set \<Rightarrow> entry \<Rightarrow> path set" where
  "filtered_step spec inc e =
     (case e_rel e of
        None \<Rightarrow> inc
      | Some relative_path \<Rightarrow>
          if spec (path_str relative_path) \<or> spec (path_str relative_path @ ''/'') then inc
          else if at_root_named output_filename relative_path then inc
          else if is_file e then
            (if \<not> is_binary e
             then add_ancestors (parent relative_path) (insert relative_path inc)
             else inc)
          else inc)"

definition get_filtered_paths :: "entry list \<Rightarrow> (string \<Rightarrow> bool) \<Rightarrow> path set" where
  "get_filtered_paths walk spec = foldl (filtered_step spec) {} walk"

text \<open>
  \<^verbatim>\<open>iter_source_files\<close>: the entries it yields, each with its relative path, in walk order.
\<close>

fun iter_source_files :: "entry list \<Rightarrow> (string \<Rightarrow> bool) \<Rightarrow> (entry \<times> path) list" where
  "iter_source_files [] spec = []"
| "iter_source_files (e # walk) spec =
     (case e_rel e of
        None \<Rightarrow> iter_source_files walk spec
      | Some rel \<Rightarrow>
          if is_dir e then iter_source_files walk spec
          else if spec (path_str rel) then iter_source_files walk spec
          else if at_root_named ''.lstignore'' rel then iter_source_files walk spec
          else if at_root_named output_filename rel then iter_source_files walk spec
          else (e, rel) # iter_source_files walk spec)"


subsection \<open>The concatenated document\<close>

text \<open>The state of the writing loop: the text written so far and the three counters.\<close>

record wstate =
  out :: string
  written_files_count :: nat
  skipped_binary_count :: nat
  skipped_encoding_count :: nat

text \<open>\<^verbatim>\<open>str(rel).replace("\\", "/")\<close>\<close>

definition tag_of :: "path \<Rightarrow> string" where
  "tag_of rel = map (\<lambda>c. if c = CHR 0x5C then CHR ''/'' else c) (path_str rel)"

text \<open>\<^verbatim>\<open>content.endswith("\n")\<close>\<close>

definition endswith_newline :: "string \<Rightarrow> bool" where
  "endswith_newline content = (content \<noteq> [] \<and> last content = CHR 0x0A)"

text \<open>
  The nested try/except around \<^verbatim>\<open>read_text\<close>: UTF-8 first, cp949 after a
  UnicodeDecodeError, and \<open>None\<close> when the file is skipped.
\<close>

definition read_content :: "entry \<Rightarrow> string option" where
  "read_content e =
     (case e_utf8 e of
        Text content \<Rightarrow> Some content
      | UnicodeDecodeError \<Rightarrow> e_cp949 e
      | ReadError \<Rightarrow> None)"

text \<open>One iteration of the loop of \<^verbatim>\<open>write_lst\<close>; each \<^verbatim>\<open>out.write\<close> appends.\<close>

definition write_file :: "wstate \<Rightarrow> entry \<times> path \<Rightarrow> wstate" where
  "write_file st yielded =
     (case yielded of (e, rel) \<Rightarrow>
        if is_binary e then st\<lparr>skipped_binary_count := skipped_binary_count st + 1\<rparr>
        else (case read_content e of
                None \<Rightarrow> st\<lparr>skipped_encoding_count := skipped_encoding_count st + 1\<rparr>
              | Some content \<Rightarrow>
                  let tag = tag_of rel;
                      st1 = st\<lparr>out := out st @ ''<'' @ tag @ [CHR ''>'', CHR 0x0A]\<rparr>;
                      st2 = st1\<lparr>out := out st1 @ content\<rparr>;
                      st3 = (if \<not> endswith_newline content
                             then st2\<lparr>out := out st2 @ [CHR 0x0A]\<rparr> else st2);
                      st4 = st3\<lparr>out := out st3 @ ''</'' @ tag @ [CHR ''>'', CHR 0x0A, CHR 0x0A]\<rparr>
                  in st4\<lparr>written_files_count := written_files_count st4 + 1\<rparr>))"

datatype error = OutfileNotUnderCwd | FatalIOError

text \<open>The text before the first file: the tree and a separator.\<close>

definition document_head :: "string \<Rightarrow> string" where
  "document_head tree_string =
     ''File Tree:'' @ [CHR 0x0A] @ tree_string @ [CHR 0x0A, CHR 0x0A] @ ''---'' @ [CHR 0x0A, CHR 0x0A]"

text \<open>
  \<^verbatim>\<open>write_lst\<close>. \<open>under_cwd\<close>: whether \<^verbatim>\<open>outfile.relative_to(Path.cwd())\<close> succeeds
  (its ValueError is not caught); \<open>writable\<close>: whether the output file can be opened and
  written (a failure there ends in \<^verbatim>\<open>sys.exit(1)\<close>). The result is the final state of the
  loop, whose \<open>out\<close> is the content of the output file.
\<close>

definition write_lst ::
  "bool \<Rightarrow> bool \<Rightarrow> entry list \<Rightarrow> (string \<Rightarrow> bool) \<Rightarrow> string \<Rightarrow> error + wstate" where
  "write_lst under_cwd writable walk spec tree_string =
     (if \<not> under_cwd then Inl OutfileNotUnderCwd
      else if \<not> writable then Inl FatalIOError
      else Inr (foldl write_file
                  \<lparr>out = document_head tree_string, written_files_count = 0,
                   skipped_binary_count = 0, skipped_encoding_count = 0\<rparr>
                  (iter_source_files walk spec)))"

subsection \<open>The tree renderer\<close>

text \<open>
  \<^verbatim>\<open>parent_map\<close> is a dict from a parent to the list of its children, filled in sorted
  order; it is an association list in insertion order here.
\<close>

fun append_child :: "path \<Rightarrow> path \<Rightarrow> (path \<times> path list) list \<Rightarrow> (path \<times> path list) list" where
  "append_child par p [] = [(par, [p])]"
| "append_child par p ((k, children) # m) =
     (if k = par then (k, children @ [p]) # m else (k, children) # append_child par p m)"

definition build_parent_map :: "path list \<Rightarrow> (path \<times> path list) list" where
  "build_parent_map sorted_paths = foldl (\<lambda>m p. append_child (parent p) p m) [] sorted_paths"

definition last_items_of :: "(path \<times> path list) list \<Rightarrow> path set" where
  "last_items_of parent_map =
     set (map (\<lambda>(par, children). last children)
            (filter (\<lambda>(par, children). children \<noteq> []) parent_map))"

text \<open>The UTF-8 bytes of the three box-drawing pieces and of the four blanks.\<close>

definition bar_piece :: string where
  "bar_piece = [CHR 0xE2, CHR 0x94, CHR 0x82, CHR 0x20, CHR 0x20, CHR 0x20]"

definition blank_piece :: string where
  "blank_piece = [CHR 0x20, CHR 0x20, CHR 0x20, CHR 0x20]"

definition corner_connector :: string where
  "corner_connector =
     [CHR 0xE2, CHR 0x94, CHR 0x94, CHR 0xE2, CHR 0x94, CHR 0x80, CHR 0xE2, CHR 0x94, CHR 0x80, CHR 0x20]"

definition branch_connector :: string where
  "branch_connector =
     [CHR 0xE2, CHR 0x94, CHR 0x9C, CHR 0xE2, CHR 0x94, CHR 0x80, CHR 0xE2, CHR 0x94, CHR 0x80, CHR 0x20]"

text \<open>The UTF-8 bytes of the parenthesised Korean sentence "there is no file or directory to include".\<close>

definition nothing_message :: string where
  "nothing_message =
     [CHR 0x28, CHR 0xED, CHR 0x8F, CHR 0xAC, CHR 0xED, CHR 0x95, CHR 0xA8, CHR 0xED, CHR 0x95,
      CHR 0xA0, CHR 0x20, CHR 0xED, CHR 0x8C, CHR 0x8C, CHR 0xEC, CHR 0x9D, CHR 0xBC, CHR 0x20,
      CHR 0xEB, CHR 0x98, CHR 0x90, CHR 0xEB, CHR 0x8A, CHR 0x94, CHR 0x20, CHR 0xEB, CHR 0x94,
      CHR 0x94, CHR 0xEB, CHR 0xA0, CHR 0x89, CHR 0xED, CHR 0x86, CHR 0xA0, CHR 0xEB, CHR 0xA6,
      CHR 0xAC, CHR 0xEA, CHR 0xB0, CHR 0x80, CHR 0x20, CHR 0xEC, CHR 0x97, CHR 0x86, CHR 0xEC,
      CHR 0x8A, CHR 0xB5, CHR 0xEB, CHR 0x8B, CHR 0x88, CHR 0xEB, CHR 0x8B, CHR 0xA4, CHR 0x2E,
      CHR 0x29]"

text \<open>
  The prefix of a line: one piece for each \<^verbatim>\<open>j in range(depth - 1)\<close>, chosen by whether
  the ancestor \<^verbatim>\<open>Path(*path.parts[:j+1])\<close> is a last item.
\<close>

definition line_prefix :: "path set \<Rightarrow> path \<Rightarrow> string" where
  "line_prefix last_items p =
     concat (map (\<lambda>j. if take (j + 1) p \<in> last_items then blank_piece else bar_piece)
               [0 ..< length p - 1])"

definition tree_line :: "path set \<Rightarrow> path \<Rightarrow> string" where
  "tree_line last_items p =
     line_prefix last_items p
     @ (if p \<in> last_items then corner_connector else branch_connector)
     @ path_name p"

text \<open>
  \<^verbatim>\<open>sorted(list(included_relative_paths))\<close>: pathlib compares two relative paths by their
  lists of segments, and Python compares lists, and strings, lexicographically; that is
  the order of \<^typ>\<open>string list\<close> here.
\<close>

definition sorted_paths_of :: "path list \<Rightarrow> path list" where
  "sorted_paths_of included = sort included"

text \<open>
  The body of \<^verbatim>\<open>generate_tree_string\<close> after the call of \<^verbatim>\<open>get_filtered_paths\<close>.
  \<open>included\<close> is \<^verbatim>\<open>list(included_relative_paths)\<close>, the elements of the set in the
  order Python happens to enumerate them. The values the function computes and never
  reads (\<^verbatim>\<open>path_pointers\<close>, \<^verbatim>\<open>is_last_ancestor\<close>) are left out.
\<close>

definition tree_string :: "string \<Rightarrow> path list \<Rightarrow> string" where
  "tree_string root_name included =
     (if included = [] then root_name @ [CHR ''/'', CHR 0x0A] @ nothing_message @ [CHR 0x0A]
      else
        let sorted_paths = sorted_paths_of included;
            parent_map = build_parent_map sorted_paths;
            last_items = last_items_of parent_map;
            tree_lines = [root_name @ ''/''] @ map (tree_line last_items) sorted_paths
        in join_with [CHR 0x0A] tree_lines)"

text \<open>
  \<^verbatim>\<open>generate_tree_string\<close>, with the set enumerated in ascending order; the theorem on
  determinism below shows that every other enumeration gives the same string.
\<close>

definition generate_tree_string :: "string \<Rightarrow> entry list \<Rightarrow> (string \<Rightarrow> bool) \<Rightarrow> string" where
  "generate_tree_string root_name walk spec =
     tree_string root_name (sorted_list_of_set (get_filtered_paths walk spec))"

subsection \<open>The ignore matcher\<close>

text \<open>
  The matcher \<^verbatim>\<open>pathspec.PathSpec\<close> (its \<^verbatim>\<open>from_lines\<close> with the \<^verbatim>\<open>gitwildmatch\<close>
  syntax and its \<^verbatim>\<open>match_file\<close>) belongs to a library that is not part of the source.
  It is modelled from the specification of the PatternMatcher (section 4.1), for the subset
  of the syntax the specification names: literal segments, stars, a leading \<open>!\<close>, a leading
  slash and a trailing slash. The script has no directory flag to pass: it tells the
  matcher that a path is a directory by a trailing slash on the string
  (\<^verbatim>\<open>spec.match_file(str(relative_path) + '/')\<close>).
\<close>

text \<open>
  Modelled from the spec: a compiled IgnoreRule of \<^verbatim>\<open>pathspec\<close>, with the attributes the
  specification lists: the original text, negation, anchoring, directory-only, and the
  glob segments.
\<close>

record ignore_rule =
  pattern_text :: string
  negation :: bool
  anchored :: bool
  dir_only :: bool
  glob_segments :: "string list"

text \<open>
  Modelled from the spec: the splitting of a pattern or of a path of \<^verbatim>\<open>pathspec\<close> at the
  separator, as \<^verbatim>\<open>s.split(c)\<close> does.
\<close>

fun split_on :: "char \<Rightarrow> string \<Rightarrow> string list" where
  "split_on c [] = [[]]"
| "split_on c (x # xs) =
     (if x = c then [] # split_on c xs
      else (case split_on c xs of
              [] \<Rightarrow> [[x]]
            | s # ss \<Rightarrow> (x # s) # ss))"

text \<open>
  Modelled from the spec: the segments of a pattern or of a path given to \<^verbatim>\<open>pathspec\<close>,
  the empty pieces around a leading or trailing slash dropped.
\<close>

definition segments_of :: "string \<Rightarrow> string list" where
  "segments_of s = filter (\<lambda>seg. seg \<noteq> []) (split_on CHR ''/'' s)"

text \<open>Modelled from the spec: a blank line of the rule source of \<^verbatim>\<open>pathspec\<close>.\<close>

definition blank_line :: "string \<Rightarrow> bool" where
  "blank_line line = list_all (\<lambda>c. c = CHR '' '' \<or> c = CHR 0x09) line"

text \<open>
  Modelled from the spec: the compilation of one line by \<^verbatim>\<open>pathspec\<close>. Blank lines and
  lines starting with \<open>#\<close> are no rules; a leading \<open>!\<close> is a negation; a leading slash
  anchors the rule; a trailing slash makes it directory-only.
\<close>

definition compile_rule :: "string \<Rightarrow> ignore_rule option" where
  "compile_rule line =
     (if blank_line line \<or> hd line = CHR ''#'' then None
      else
        let neg = (hd line = CHR ''!'');
            body = (if neg then tl line else line)
        in Some \<lparr>pattern_text = line,
                 negation = neg,
                 anchored = (body \<noteq> [] \<and> hd body = CHR ''/''),
                 dir_only = (body \<noteq> [] \<and> last body = CHR ''/''),
                 glob_segments = segments_of body\<rparr>)"

text \<open>
  Modelled from the spec: the glob of \<^verbatim>\<open>pathspec\<close> inside one segment; a star matches any
  run of characters of the segment.
\<close>

fun seg_match :: "string \<Rightarrow> string \<Rightarrow> bool" where
  "seg_match [] s = (s = [])"
| "seg_match (g # gs) [] = (g = CHR ''*'' \<and> seg_match gs [])"
| "seg_match (g # gs) (c # cs) =
     (if g = CHR ''*'' then seg_match gs (c # cs) \<or> seg_match (g # gs) cs
      else g = c \<and> seg_match gs cs)"

text \<open>
  Modelled from the spec: the glob of \<^verbatim>\<open>pathspec\<close> over segments; a segment of two stars
  matches zero or more whole segments.
\<close>

fun segs_match :: "string list \<Rightarrow> string list \<Rightarrow> bool" where
  "segs_match [] segs = (segs = [])"
| "segs_match (g # gs) [] = (g = ''**'' \<and> segs_match gs [])"
| "segs_match (g # gs) (s # segs) =
     (if g = ''**'' then segs_match gs (s # segs) \<or> segs_match (g # gs) segs
      else seg_match g s \<and> segs_match gs segs)"

text \<open>
  Modelled from the spec: where a rule of \<^verbatim>\<open>pathspec\<close> may start: at the root when it is
  anchored, else at every depth, that is at every suffix of the segments of the path.
\<close>

definition starts_of :: "ignore_rule \<Rightarrow> string list \<Rightarrow> string list list" where
  "starts_of r segs = (if anchored r then [segs] else map (\<lambda>i. drop i segs) [0 ..< length segs])"

text \<open>
  Modelled from the spec: whether one rule of \<^verbatim>\<open>pathspec\<close> matches a path. From one of
  its starts, the glob of the rule matches the first \<open>k\<close> segments (\<open>k\<close> at least one):
  the path itself when nothing follows them, something beneath it otherwise. A
  directory-only rule matches the path itself only when the path is a directory.
\<close>

definition rule_matches :: "ignore_rule \<Rightarrow> string list \<Rightarrow> bool \<Rightarrow> bool" where
  "rule_matches r segs is_directory =
     list_ex (\<lambda>start.
        list_ex (\<lambda>k. segs_match (glob_segments r) (take k start)
                     \<and> (if dir_only r then k < length start \<or> is_directory else True))
          [1 ..< Suc (length start)])
       (starts_of r segs)"

text \<open>
  Modelled from the spec: \<^verbatim>\<open>PathSpec.match_file\<close>. Every rule is evaluated in order and
  the polarity of the last one that matches is returned; when no rule matches the path is
  not ignored. A trailing slash on the string marks a directory.
\<close>

definition match_file :: "ignore_rule list \<Rightarrow> string \<Rightarrow> bool" where
  "match_file rules file =
     (let segs = segments_of file;
          is_directory = (file \<noteq> [] \<and> last file = CHR ''/'')
      in foldl (\<lambda>ignored r. if rule_matches r segs is_directory then \<not> negation r else ignored)
           False rules)"

text \<open>
  Modelled from the spec: \<^verbatim>\<open>PathSpec.from_lines\<close>, the rules of the lines in their order.
\<close>

definition from_lines :: "string list \<Rightarrow> ignore_rule list" where
  "from_lines patterns = List.map_filter compile_rule patterns"

text \<open>
  \<^verbatim>\<open>load_ignore_file\<close>: the lines of \<^verbatim>\<open>.lstignore\<close> (\<open>None\<close> when it is not a file)
  followed by the default patterns.
\<close>

definition default_ignores :: "string list" where
  "default_ignores = [''.git/'', ''.lstignore'', ''lst.txt'']"

definition load_ignore_file :: "string list option \<Rightarrow> ignore_rule list" where
  "load_ignore_file ignore_file =
     (let patterns = (case ignore_file of None \<Rightarrow> [] | Some lines \<Rightarrow> lines)
      in from_lines (patterns @ default_ignores))"


subsection \<open>The entry point\<close>

text \<open>
  \<^verbatim>\<open>main\<close>. It resolves the root (exit 1 when the root does not exist or is not a
  directory), creates the directory of the output file (exit 1 when that fails), loads the
  matcher, renders the tree and writes the document. The root is walked twice: once by
  \<^verbatim>\<open>generate_tree_string\<close>, and once more by \<^verbatim>\<open>write_lst\<close>, which has opened the output
  file before it walks, so that an output file under the root is an entry of the second
  walk whether or not it was one of the first. The argument of \<^verbatim>\<open>-o\<close> names the output
  file and goes nowhere else: \<^verbatim>\<open>load_ignore_file\<close> is called with the root only.
\<close>

datatype exit_error = RootNotFound | RootNotADirectory | OutputDirectoryFailed

record invocation =
  arg_output :: string
  arg_root_name :: string
  root_exists :: bool
  root_is_directory :: bool
  output_directory_ok :: bool
  ignore_file_lines :: "string list option"
  first_walk :: "entry list"
  second_walk :: "entry list"
  outfile_under_cwd :: bool
  outfile_writable :: bool

definition main :: "invocation \<Rightarrow> exit_error + string \<times> (error + wstate)" where
  "main run =
     (if \<not> root_exists run then Inl RootNotFound
      else if \<not> root_is_directory run then Inl RootNotADirectory
      else if \<not> output_directory_ok run then Inl OutputDirectoryFailed
      else
        let spec = match_file (load_ignore_file (ignore_file_lines run));
            tree_string = generate_tree_string (arg_root_name run) (first_walk run) spec
        in Inr (tree_string,
                write_lst (outfile_under_cwd run) (outfile_writable run) (second_walk run) spec
                  tree_string))"

subsection \<open>Notions used by the statements\<close>

text \<open>
  A walk as \<^verbatim>\<open>rglob\<close> yields it: every relative path is non-empty (the root itself is not
  yielded) and is a path as pathlib builds it.
\<close>

definition walk_valid :: "entry list \<Rightarrow> bool" where
  "walk_valid walk =
     list_all (\<lambda>e. case e_rel e of None \<Rightarrow> True | Some rel \<Rightarrow> rel \<noteq> [] \<and> valid_path rel) walk"

text \<open>
  The condition under which the loop body of \<^verbatim>\<open>get_filtered_paths\<close> reaches its
  \<^verbatim>\<open>add\<close> for an entry with relative path \<open>rel\<close>, and the condition under which
  \<^verbatim>\<open>iter_source_files\<close> reaches its \<^verbatim>\<open>yield\<close>.
\<close>

definition tree_includes :: "(string \<Rightarrow> bool) \<Rightarrow> entry \<Rightarrow> path \<Rightarrow> bool" where
  "tree_includes spec e rel =
     (\<not> spec (path_str rel) \<and> \<not> spec (path_str rel @ ''/'')
      \<and> \<not> at_root_named output_filename rel \<and> is_file e \<and> \<not> is_binary e)"

definition yields :: "(string \<Rightarrow> bool) \<Rightarrow> entry \<Rightarrow> path \<Rightarrow> bool" where
  "yields spec e rel =
     (\<not> is_dir e \<and> \<not> spec (path_str rel) \<and> \<not> at_root_named ''.lstignore'' rel
      \<and> \<not> at_root_named output_filename rel)"

text \<open>
  In a walk of a real directory tree a regular file is yielded once and nothing lies
  beneath it: \<open>e\<close> is the only entry of the walk whose relative path is \<open>rel\<close> or
  continues \<open>rel\<close>.
\<close>

definition sole_at :: "entry list \<Rightarrow> entry \<Rightarrow> path \<Rightarrow> bool" where
  "sole_at walk e rel =
     list_all (\<lambda>e'. case e_rel e' of
                       None \<Rightarrow> True
                     | Some rel' \<Rightarrow> if prefix rel rel' then e' = e else True) walk"

text \<open>
  The files whose content the loop of \<^verbatim>\<open>write_lst\<close> writes, with the content written:
  those yielded by \<^verbatim>\<open>iter_source_files\<close> that are neither skipped as binary nor skipped
  by the try/except.
\<close>

definition emitted_of :: "(entry \<times> path) list \<Rightarrow> (entry \<times> path \<times> string) list" where
  "emitted_of yielded =
     List.map_filter (\<lambda>(e, rel).
        if is_binary e then None
        else (case read_content e of None \<Rightarrow> None | Some content \<Rightarrow> Some (e, rel, content)))
       yielded"

definition emitted :: "entry list \<Rightarrow> (string \<Rightarrow> bool) \<Rightarrow> (entry \<times> path \<times> string) list" where
  "emitted walk spec = emitted_of (iter_source_files walk spec)"

text \<open>
  The entry of one file as the claim on the document describes it: the opening tag line,
  the content closed by a newline, the closing tag line and a blank line.
\<close>

definition entry_body :: "string \<Rightarrow> string" where
  "entry_body content = (if endswith_newline content then content else content @ [CHR 0x0A])"

definition tagged_entry :: "path \<Rightarrow> string \<Rightarrow> string" where
  "tagged_entry rel content =
     ''<'' @ tag_of rel @ ''>'' @ [CHR 0x0A]
     @ entry_body content
     @ ''</'' @ tag_of rel @ ''>'' @ [CHR 0x0A]
     @ [CHR 0x0A]"

text \<open>The three default patterns, compiled.\<close>

definition git_rule :: ignore_rule where
  "git_rule = \<lparr>pattern_text = ''.git/'', negation = False, anchored = False, dir_only = True,
               glob_segments = [''.git'']\<rparr>"

definition lstignore_rule :: ignore_rule where
  "lstignore_rule = \<lparr>pattern_text = ''.lstignore'', negation = False, anchored = False,
                     dir_only = False, glob_segments = [''.lstignore'']\<rparr>"

definition lst_txt_rule :: ignore_rule where
  "lst_txt_rule = \<lparr>pattern_text = ''lst.txt'', negation = False, anchored = False,
                   dir_only = False, glob_segments = [''lst.txt'']\<rparr>"

text \<open>A text of one line: no newline but, possibly, a final one.\<close>

definition single_line :: "string \<Rightarrow> bool" where
  "single_line s = (CHR 0x0A \<notin> set (butlast s))"

text \<open>
  Sample entries for the concrete instances below. \<open>special_file\<close> is an entry that is
  neither a regular file nor a directory and that reads as the empty text, as a link to
  the null device does.
\<close>

definition text_file :: "path \<Rightarrow> string \<Rightarrow> entry" where
  "text_file rel content =
     \<lparr>e_rel = Some rel, e_kind = RegularFile, e_bytes = Some (map of_char content),
      e_utf8 = Text content, e_cp949 = None\<rparr>"

definition binary_file :: "path \<Rightarrow> entry" where
  "binary_file rel =
     \<lparr>e_rel = Some rel, e_kind = RegularFile, e_bytes = Some [0x61, 0x00, 0x62],
      e_utf8 = Text [CHR ''a'', CHR 0x00, CHR ''b''], e_cp949 = None\<rparr>"

definition undecodable_file :: "path \<Rightarrow> entry" where
  "undecodable_file rel =
     \<lparr>e_rel = Some rel, e_kind = RegularFile, e_bytes = Some [0xFF],
      e_utf8 = UnicodeDecodeError, e_cp949 = None\<rparr>"

definition special_file :: "path \<Rightarrow> entry" where
  "special_file rel =
     \<lparr>e_rel = Some rel, e_kind = Other, e_bytes = Some [], e_utf8 = Text [], e_cp949 = None\<rparr>"

definition directory :: "path \<Rightarrow> entry" where
  "directory rel =
     \<lparr>e_rel = Some rel, e_kind = Directory, e_bytes = None, e_utf8 = ReadError, e_cp949 = None\<rparr>"


text \<open>
  A run with \<^verbatim>\<open>-o out.txt\<close> in a root that holds one text file: the second walk meets
  the output file, opened and still empty.
\<close>

definition run_out_txt :: invocation where
  "run_out_txt =
     \<lparr>arg_output = ''out.txt'', arg_root_name = ''root'', root_exists = True,
      root_is_directory = True, output_directory_ok = True, ignore_file_lines = None,
      first_walk = [text_file [''a.txt''] ''x''],
      second_walk = [text_file [''a.txt''] ''x'', text_file [''out.txt''] ''''],
      outfile_under_cwd = True, outfile_writable = True\<rparr>"

section \<open>The ancestor loop and the inclusion set\<close>

lemma join_with_slash_dot:
  "join_with ''/'' p = ''.'' \<longleftrightarrow> p = [''.'']"
proof (cases p)
  case Nil then show ?thesis by simp
next
  case (Cons x xs)
  show ?thesis
  proof (cases xs)
    case Nil with Cons show ?thesis by simp
  next
    case (Cons y ys)
    have "join_with ''/'' (x # y # ys) \<noteq> ''.''" by (auto simp: append_eq_Cons_conv)
    with Cons \<open>p = x # xs\<close> show ?thesis by simp
  qed
qed

lemma path_str_dot: "path_str p = ''.'' \<longleftrightarrow> p = [] \<or> p = [''.'']"
  by (simp add: path_str_def join_with_slash_dot)

lemma valid_path_str_dot: "valid_path p \<Longrightarrow> path_str p = ''.'' \<longleftrightarrow> p = []"
  by (auto simp: path_str_dot valid_path_def)

lemma valid_path_butlast: "valid_path p \<Longrightarrow> valid_path (butlast p)"
  unfolding valid_path_def list_all_iff by (blast dest: in_set_butlastD)

lemma valid_path_prefix: "valid_path p \<Longrightarrow> prefix q p \<Longrightarrow> valid_path q"
  unfolding valid_path_def prefix_def by (elim exE) (simp only: list_all_append)

lemma add_ancestors_mono: "inc \<subseteq> add_ancestors c inc"
proof (induction c inc rule: add_ancestors.induct)
  case (1 current inc)
  show ?case
  proof (cases "path_str current \<noteq> ''.''")
    case True
    with 1 have "insert current inc \<subseteq> add_ancestors (parent current) (insert current inc)" by simp
    with True show ?thesis by (subst add_ancestors.simps) auto
  next
    case False
    then show ?thesis by (subst add_ancestors.simps) simp
  qed
qed

lemma add_ancestors_upper:
  "add_ancestors c inc \<subseteq> inc \<union> {q. q \<noteq> [] \<and> prefix q c}"
proof (induction c inc rule: add_ancestors.induct)
  case (1 current inc)
  show ?case
  proof (cases "path_str current \<noteq> ''.''")
    case True
    then have ne: "current \<noteq> []" by (auto simp: path_str_def)
    from 1 True have ih: "add_ancestors (parent current) (insert current inc)
        \<subseteq> insert current inc \<union> {q. q \<noteq> [] \<and> prefix q (parent current)}" by simp
    have "prefix q (butlast current) \<Longrightarrow> prefix q current" for q
      using ne by (metis append_butlast_last_id prefix_order.order_trans prefixI)
    with ih ne True show ?thesis
      by (subst add_ancestors.simps) (auto simp: parent_def)
  next
    case False
    then show ?thesis by (subst add_ancestors.simps) simp
  qed
qed

lemma add_ancestors_valid:
  "valid_path c \<Longrightarrow> add_ancestors c inc = inc \<union> {q. q \<noteq> [] \<and> prefix q c}"
proof (induction c inc rule: add_ancestors.induct)
  case (1 current inc)
  show ?case
  proof (cases "current = []")
    case True
    then show ?thesis by (subst add_ancestors.simps) (simp add: path_str_def)
  next
    case False
    with "1.prems" have nd: "path_str current \<noteq> ''.''" by (simp add: valid_path_str_dot)
    have vb: "valid_path (parent current)" using "1.prems" by (simp add: parent_def valid_path_butlast)
    from "1.IH"[OF nd vb] have ih: "add_ancestors (parent current) (insert current inc)
        = insert current inc \<union> {q. q \<noteq> [] \<and> prefix q (parent current)}" .
    from False obtain ys y where cur: "current = ys @ [y]" by (metis append_butlast_last_id)
    have "{q. q \<noteq> [] \<and> prefix q current} = insert current {q. q \<noteq> [] \<and> prefix q (parent current)}"
      using cur by (auto simp: parent_def)
    with ih nd show ?thesis by (subst add_ancestors.simps) auto
  qed
qed

lemma add_ancestors_union: "add_ancestors c inc = inc \<union> add_ancestors c {}"
proof (induction c arbitrary: inc rule: rev_induct)
  case Nil
  have "add_ancestors [] inc = inc" for inc
    by (subst add_ancestors.simps) (simp add: path_str_def)
  then show ?case by simp
next
  case (snoc x xs)
  show ?case
  proof (cases "path_str (xs @ [x]) \<noteq> ''.''")
    case True
    have a: "add_ancestors (xs @ [x]) inc = add_ancestors xs (insert (xs @ [x]) inc)" for inc
      using True by (subst add_ancestors.simps) (simp add: parent_def)
    show ?thesis
      unfolding a using snoc[of "insert (xs @ [x]) inc"] snoc[of "{xs @ [x]}"] by auto
  next
    case False
    then have "add_ancestors (xs @ [x]) inc = inc" for inc
      by (subst add_ancestors.simps) simp
    then show ?thesis by simp
  qed
qed

lemma filtered_step_union: "filtered_step spec inc e = inc \<union> filtered_step spec {} e"
  unfolding filtered_step_def
  using add_ancestors_union[of _ "insert _ inc"] add_ancestors_union[of _ "{_}"]
  by (auto split: option.splits)

lemma foldl_filtered_step:
  "foldl (filtered_step spec) inc walk = inc \<union> (\<Union>e\<in>set walk. filtered_step spec {} e)"
proof (induction walk arbitrary: inc)
  case Nil show ?case by simp
next
  case (Cons e walk)
  show ?case using filtered_step_union[of spec inc e] by (simp add: Cons) blast
qed

lemma get_filtered_paths_Union:
  "get_filtered_paths walk spec = (\<Union>e\<in>set walk. filtered_step spec {} e)"
  by (simp add: get_filtered_paths_def foldl_filtered_step)



lemma walk_validD:
  "walk_valid walk \<Longrightarrow> e \<in> set walk \<Longrightarrow> e_rel e = Some rel \<Longrightarrow> rel \<noteq> [] \<and> valid_path rel"
  by (auto simp: walk_valid_def list_all_iff)

lemma filtered_step_empty:
  "filtered_step spec {} e =
     (case e_rel e of None \<Rightarrow> {}
      | Some rel \<Rightarrow> if tree_includes spec e rel then add_ancestors (parent rel) {rel} else {})"
  by (auto simp: filtered_step_def tree_includes_def split: option.splits)

lemma in_get_filtered_paths_iff:
  "p \<in> get_filtered_paths walk spec \<longleftrightarrow>
     (\<exists>e\<in>set walk. \<exists>rel. e_rel e = Some rel \<and> tree_includes spec e rel
        \<and> p \<in> add_ancestors (parent rel) {rel})"
  by (auto simp: get_filtered_paths_Union filtered_step_empty split: option.splits if_splits)

lemma prefix_butlast_iff:
  "rel \<noteq> [] \<Longrightarrow> prefix q (butlast rel) \<longleftrightarrow> strict_prefix q rel"
proof -
  assume "rel \<noteq> []"
  then obtain ys y where "rel = ys @ [y]" by (metis append_butlast_last_id)
  then show ?thesis by (auto simp: strict_prefix_def)
qed

lemma add_ancestors_parent_upper:
  assumes "p \<in> add_ancestors (parent rel) {rel}"
  shows "p = rel \<or> (p \<noteq> [] \<and> strict_prefix p rel)"
proof -
  from assms add_ancestors_upper[of "parent rel" "{rel}"]
  have "p = rel \<or> (p \<noteq> [] \<and> prefix p (butlast rel))" by (auto simp: parent_def)
  then show ?thesis by (cases "rel = []") (auto simp: prefix_butlast_iff)
qed

lemma add_ancestors_parent_valid:
  assumes "valid_path rel" "rel \<noteq> []"
  shows "add_ancestors (parent rel) {rel} = {q. q \<noteq> [] \<and> prefix q rel}"
proof -
  have "valid_path (parent rel)" using assms by (simp add: parent_def valid_path_butlast)
  then have "add_ancestors (parent rel) {rel} = {rel} \<union> {q. q \<noteq> [] \<and> prefix q (butlast rel)}"
    by (simp add: add_ancestors_valid parent_def)
  also have "\<dots> = {q. q \<noteq> [] \<and> prefix q rel}"
    using assms(2) by (auto simp: prefix_butlast_iff strict_prefix_def)
  finally show ?thesis .
qed


section \<open>Properties of the inclusion set\<close>

text \<open>
  Claim C5 (ancestor closure). In a walk as \<^verbatim>\<open>rglob\<close> yields it, for every path \<open>p\<close>
  of the set returned by \<^verbatim>\<open>get_filtered_paths\<close> (in particular for every file), every
  strict ancestor \<open>q\<close> of \<open>p\<close> other than the root is a member of the set too; the root
  itself (the relative path \<^verbatim>\<open>.\<close>, the empty list) is not a member.
\<close>

theorem ancestor_closure:
  assumes "walk_valid walk" and "p \<in> get_filtered_paths walk spec"
    and "strict_prefix q p" and "q \<noteq> []"
  shows "q \<in> get_filtered_paths walk spec \<and> [] \<notin> get_filtered_paths walk spec"
proof
  from assms(2) obtain e rel where e: "e \<in> set walk" "e_rel e = Some rel"
      "tree_includes spec e rel" and p: "p \<in> add_ancestors (parent rel) {rel}"
    by (auto simp: in_get_filtered_paths_iff)
  from walk_validD[OF assms(1) e(1,2)] have v: "rel \<noteq> []" "valid_path rel" by simp_all
  from p have "prefix p rel" by (simp add: add_ancestors_parent_valid[OF v(2,1)])
  with assms(3) have "prefix q rel" by (meson prefix_order.dual_order.trans prefix_order.less_imp_le)
  with assms(4) have "q \<in> add_ancestors (parent rel) {rel}"
    by (simp add: add_ancestors_parent_valid[OF v(2,1)])
  with e show "q \<in> get_filtered_paths walk spec"
    by (auto simp: in_get_filtered_paths_iff)
next
  show "[] \<notin> get_filtered_paths walk spec"
  proof
    assume "[] \<in> get_filtered_paths walk spec"
    then obtain e rel where e: "e \<in> set walk" "e_rel e = Some rel"
      and p: "[] \<in> add_ancestors (parent rel) {rel}"
      by (auto simp: in_get_filtered_paths_iff)
    from walk_validD[OF assms(1) e(1,2)] have "rel \<noteq> []" by simp
    with add_ancestors_parent_upper[OF p] show False by simp
  qed
qed


theorem ancestor_closure_witness:
  "walk_valid [text_file [''src'', ''util'', ''io.py''] ''x'']
   \<and> [''src'', ''util'', ''io.py'']
       \<in> get_filtered_paths [text_file [''src'', ''util'', ''io.py''] ''x'']
            (match_file (load_ignore_file None))
   \<and> strict_prefix [''src''] [''src'', ''util'', ''io.py'']
   \<and> [''src''] \<in> get_filtered_paths [text_file [''src'', ''util'', ''io.py''] ''x'']
                    (match_file (load_ignore_file None))
   \<and> [] \<notin> get_filtered_paths [text_file [''src'', ''util'', ''io.py''] ''x'']
              (match_file (load_ignore_file None))"
proof -
  have v: "walk_valid [text_file [''src'', ''util'', ''io.py''] ''x'']"
    by (simp add: walk_valid_def text_file_def valid_path_def)
  have m: "[''src'', ''util'', ''io.py'']
       \<in> get_filtered_paths [text_file [''src'', ''util'', ''io.py''] ''x'']
            (match_file (load_ignore_file None))"
    by code_simp
  have s: "strict_prefix [''src''] [''src'', ''util'', ''io.py'']" by simp
  show ?thesis using v m s ancestor_closure[OF v m s] by simp
qed


section \<open>Order independence and determinism\<close>

lemma get_filtered_paths_set_cong:
  "set walk = set walk' \<Longrightarrow> get_filtered_paths walk spec = get_filtered_paths walk' spec"
  by (simp add: get_filtered_paths_Union)

lemma finite_add_ancestors: "finite inc \<Longrightarrow> finite (add_ancestors c inc)"
proof (induction c inc rule: add_ancestors.induct)
  case (1 current inc)
  show ?case
    by (subst add_ancestors.simps) (use 1 in auto)
qed

lemma finite_filtered_step: "finite inc \<Longrightarrow> finite (filtered_step spec inc e)"
  by (auto simp: filtered_step_def finite_add_ancestors split: option.splits)

lemma finite_get_filtered_paths: "finite (get_filtered_paths walk spec)"
proof -
  have "finite inc \<Longrightarrow> finite (foldl (filtered_step spec) inc walk)" for inc
    by (induction walk arbitrary: inc) (auto simp: finite_filtered_step)
  then show ?thesis by (simp add: get_filtered_paths_def)
qed

lemma sorted_paths_of_enum:
  assumes "distinct xs" "set xs = S"
  shows "sorted_paths_of xs = sorted_list_of_set S"
proof -
  have "sort xs = sorted_list_of_set (set xs)"
    using assms(1) by (simp add: sorted_list_of_set_sort_remdups distinct_remdups_id)
  with assms(2) show ?thesis by (simp add: sorted_paths_of_def)
qed

lemma tree_string_enum:
  assumes "distinct xs" "distinct ys" "set xs = set ys"
  shows "tree_string r xs = tree_string r ys"
proof -
  have s: "sorted_paths_of xs = sorted_paths_of ys"
    using sorted_paths_of_enum[OF assms(1) refl] sorted_paths_of_enum[OF assms(2) refl] assms(3)
    by simp
  have e: "xs = [] \<longleftrightarrow> ys = []" using assms(3) by (metis set_empty)
  show ?thesis unfolding tree_string_def s using e by simp
qed

lemma empty_tree_string:
  "get_filtered_paths walk spec = {} \<Longrightarrow>
   generate_tree_string root_name walk spec
     = root_name @ [CHR ''/'', CHR 0x0A] @ nothing_message @ [CHR 0x0A]"
  by (simp add: generate_tree_string_def tree_string_def)

lemma nothing_message_no_newline: "CHR 0x0A \<notin> set nothing_message"
  by (simp add: nothing_message_def)



text \<open>
  Claim C6 (order independence and determinism). Two enumerations of the same entries give
  the same inclusion set, whatever the matcher; and the tree string depends on the content
  of the inclusion set only: any two enumerations \<open>included\<close> and \<open>included'\<close> of it (the
  order in which Python lists the set) give the same string, which is the string
  \<^verbatim>\<open>generate_tree_string\<close> returns for either walk.
\<close>

theorem order_independence:
  assumes "set walk = set walk'"
    and "distinct included" and "set included = get_filtered_paths walk spec"
    and "distinct included'" and "set included' = get_filtered_paths walk' spec"
  shows "get_filtered_paths walk spec = get_filtered_paths walk' spec
         \<and> tree_string root_name included = tree_string root_name included'
         \<and> generate_tree_string root_name walk spec = tree_string root_name included
         \<and> generate_tree_string root_name walk' spec = generate_tree_string root_name walk spec"
proof -
  have g: "get_filtered_paths walk spec = get_filtered_paths walk' spec"
    using assms(1) by (rule get_filtered_paths_set_cong)
  have t: "tree_string root_name included = tree_string root_name included'"
    using assms g by (intro tree_string_enum) simp_all
  have d: "distinct (sorted_list_of_set (get_filtered_paths walk spec))"
    and ss: "set (sorted_list_of_set (get_filtered_paths walk spec)) = get_filtered_paths walk spec"
    by (simp_all add: finite_get_filtered_paths)
  have "generate_tree_string root_name walk spec = tree_string root_name included"
    unfolding generate_tree_string_def using d ss assms(2,3) by (intro tree_string_enum) simp_all
  with g t show ?thesis by (simp add: generate_tree_string_def)
qed

theorem order_independence_witness:
  "set [text_file [''a'', ''x.txt''] ''x'', text_file [''b'', ''z.txt''] ''z'']
     = set [text_file [''b'', ''z.txt''] ''z'', text_file [''a'', ''x.txt''] ''x'']
   \<and> get_filtered_paths [text_file [''a'', ''x.txt''] ''x'', text_file [''b'', ''z.txt''] ''z'']
         (match_file (load_ignore_file None))
     = get_filtered_paths [text_file [''b'', ''z.txt''] ''z'', text_file [''a'', ''x.txt''] ''x'']
         (match_file (load_ignore_file None))
   \<and> tree_string ''root'' [[''b'', ''z.txt''], [''a''], [''b''], [''a'', ''x.txt'']]
     = tree_string ''root'' [[''a'', ''x.txt''], [''b'', ''z.txt''], [''b''], [''a'']]"
proof -
  let ?w = "[text_file [''a'', ''x.txt''] ''x'', text_file [''b'', ''z.txt''] ''z'']"
  let ?w' = "[text_file [''b'', ''z.txt''] ''z'', text_file [''a'', ''x.txt''] ''x'']"
  let ?s = "match_file (load_ignore_file None)"
  let ?i = "[[''b'', ''z.txt''], [''a''], [''b''], [''a'', ''x.txt'']]"
  let ?i' = "[[''a'', ''x.txt''], [''b'', ''z.txt''], [''b''], [''a'']]"
  have w: "set ?w = set ?w'" by (simp add: insert_commute)
  have d: "distinct ?i" "distinct ?i'" by simp_all
  have g: "set ?i = get_filtered_paths ?w ?s" by code_simp
  have g': "set ?i' = get_filtered_paths ?w' ?s" by code_simp
  show ?thesis
    using w order_independence[OF w d(1) g d(2) g', of "''root''"] by simp
qed


section \<open>The fallback for an empty inclusion set\<close>

text \<open>
  Claim C9, as stated, asks for a single-line fallback. The string the code returns for an
  empty inclusion set has two lines; here under the rule \<^verbatim>\<open>*\<close> over a root holding one file.
\<close>

theorem fallback_two_lines:
  "get_filtered_paths [text_file [''a.txt''] ''x''] (match_file (load_ignore_file (Some [''*'']))) = {}
   \<and> \<not> single_line (generate_tree_string ''root'' [text_file [''a.txt''] ''x'']
                      (match_file (load_ignore_file (Some [''*'']))))"
proof -
  have e: "get_filtered_paths [text_file [''a.txt''] ''x'']
             (match_file (load_ignore_file (Some [''*'']))) = {}"
    by code_simp
  show ?thesis using e by (simp add: empty_tree_string[OF e] single_line_def)
qed


text \<open>
  Claim C9, amended. When the inclusion set is empty, \<^verbatim>\<open>generate_tree_string\<close> returns a
  fallback of two lines: the name of the root followed by a slash, then the sentence saying
  that nothing qualifies (which holds no newline), each line closed by a newline. The
  string is never empty, and the function has no failing branch.
\<close>

theorem empty_result_fallback:
  assumes "get_filtered_paths walk spec = {}"
  shows "generate_tree_string root_name walk spec
           = (root_name @ ''/'') @ [CHR 0x0A] @ nothing_message @ [CHR 0x0A]
         \<and> CHR 0x0A \<notin> set nothing_message
         \<and> generate_tree_string root_name walk spec \<noteq> []"
  using empty_tree_string[OF assms, of root_name] nothing_message_no_newline by simp

theorem empty_result_fallback_witness:
  "get_filtered_paths [text_file [''a.txt''] ''x''] (match_file (load_ignore_file (Some [''*'']))) = {}
   \<and> generate_tree_string ''root'' [text_file [''a.txt''] ''x'']
        (match_file (load_ignore_file (Some [''*''])))
      = ''root/'' @ [CHR 0x0A] @ nothing_message @ [CHR 0x0A]"
proof -
  have e: "get_filtered_paths [text_file [''a.txt''] ''x'']
             (match_file (load_ignore_file (Some [''*'']))) = {}"
    by code_simp
  show ?thesis using e empty_result_fallback[OF e, of "''root''"] by simp
qed



section \<open>The entries of the document\<close>

lemma in_iter_source_files_iff:
  "(e, rel) \<in> set (iter_source_files walk spec)
     \<longleftrightarrow> e \<in> set walk \<and> e_rel e = Some rel \<and> yields spec e rel"
  by (induction walk) (auto simp: yields_def split: option.splits)

lemma emitted_of_Cons:
  "emitted_of ((e, rel) # ys) =
     (if is_binary e then emitted_of ys
      else (case read_content e of None \<Rightarrow> emitted_of ys
            | Some content \<Rightarrow> (e, rel, content) # emitted_of ys))"
  by (simp add: emitted_of_def List.map_filter_def split: option.splits)

lemma emitted_of_Nil: "emitted_of [] = []"
  by (simp add: emitted_of_def List.map_filter_def)

lemma in_emitted_of_iff:
  "(e, rel, content) \<in> set (emitted_of ys)
     \<longleftrightarrow> (e, rel) \<in> set ys \<and> \<not> is_binary e \<and> read_content e = Some content"
proof (induction ys)
  case Nil
  show ?case by (simp add: emitted_of_Nil)
next
  case (Cons y ys)
  obtain e' rel' where y: "y = (e', rel')" by (cases y)
  show ?case unfolding y using Cons.IH
    by (auto simp: emitted_of_Cons split: option.splits)
qed

lemma in_emitted_iff:
  "(e, rel, content) \<in> set (emitted walk spec)
     \<longleftrightarrow> e \<in> set walk \<and> e_rel e = Some rel \<and> yields spec e rel
          \<and> \<not> is_binary e \<and> read_content e = Some content"
  by (simp add: emitted_def in_emitted_of_iff in_iter_source_files_iff)

lemma write_file_out:
  "out (write_file st (e, rel)) =
     (if is_binary e then out st
      else (case read_content e of None \<Rightarrow> out st
            | Some content \<Rightarrow> out st @ tagged_entry rel content))"
  by (simp add: write_file_def tagged_entry_def entry_body_def Let_def split: option.splits)

lemma write_file_count:
  "written_files_count (write_file st (e, rel)) =
     (if is_binary e then written_files_count st
      else (case read_content e of None \<Rightarrow> written_files_count st
            | Some content \<Rightarrow> written_files_count st + 1))"
  by (simp add: write_file_def Let_def split: option.splits)

lemma foldl_write_file:
  "out (foldl write_file st ys)
     = out st @ concat (map (\<lambda>(e, rel, content). tagged_entry rel content) (emitted_of ys))
   \<and> written_files_count (foldl write_file st ys)
     = written_files_count st + length (emitted_of ys)"
proof (induction ys arbitrary: st)
  case Nil
  show ?case by (simp add: emitted_of_Nil)
next
  case (Cons y ys)
  obtain e rel where y: "y = (e, rel)" by (cases y)
  show ?case
    by (simp add: y Cons.IH write_file_out write_file_count emitted_of_Cons split: option.splits)
qed

lemma endswith_newline_entry_body: "endswith_newline (entry_body content)"
  by (simp add: entry_body_def endswith_newline_def)


text \<open>
  Claim C10 (format of a document entry). When the output file can be written,
  \<^verbatim>\<open>write_lst\<close> writes the head of the document and then, for each emitted file in walk
  order, exactly one entry: the opening tag line \<^verbatim>\<open><tag>\<close>, the content with a newline
  appended when and only when the content does not end in one, the closing tag line
  \<^verbatim>\<open></tag>\<close> and a blank line, where the tag is the relative path with every backslash
  replaced by a slash. So the text between the two tag lines always ends in a newline.
\<close>

theorem document_entry_format:
  "(\<exists>st. write_lst True True walk spec tree = Inr st
      \<and> out st = document_head tree
                 @ concat (map (\<lambda>(e, rel, content). tagged_entry rel content) (emitted walk spec))
      \<and> written_files_count st = length (emitted walk spec))
   \<and> tagged_entry rel content
       = ''<'' @ tag_of rel @ ''>'' @ [CHR 0x0A]
         @ (if endswith_newline content then content else content @ [CHR 0x0A])
         @ ''</'' @ tag_of rel @ ''>'' @ [CHR 0x0A] @ [CHR 0x0A]
   \<and> tag_of rel = map (\<lambda>c. if c = CHR 0x5C then CHR ''/'' else c) (path_str rel)
   \<and> endswith_newline (if endswith_newline content then content else content @ [CHR 0x0A])"
proof -
  have "endswith_newline (if endswith_newline content then content else content @ [CHR 0x0A])"
    using endswith_newline_entry_body[of content] by (simp add: entry_body_def)
  then show ?thesis
    by (simp add: write_lst_def foldl_write_file emitted_def tagged_entry_def entry_body_def
        tag_of_def)
qed


section \<open>The tree against the document\<close>

lemma sole_atD:
  "sole_at walk e rel \<Longrightarrow> e' \<in> set walk \<Longrightarrow> e_rel e' = Some rel' \<Longrightarrow> prefix rel rel' \<Longrightarrow> e' = e"
  by (auto simp: sole_at_def list_all_iff split: option.splits if_splits)

lemma sole_in_get_filtered_paths:
  assumes "e \<in> set walk" "e_rel e = Some rel" "sole_at walk e rel"
  shows "rel \<in> get_filtered_paths walk spec \<longleftrightarrow> tree_includes spec e rel"
proof
  assume "rel \<in> get_filtered_paths walk spec"
  then obtain e' rel' where e': "e' \<in> set walk" "e_rel e' = Some rel'"
      "tree_includes spec e' rel'" and p: "rel \<in> add_ancestors (parent rel') {rel'}"
    by (auto simp: in_get_filtered_paths_iff)
  from add_ancestors_parent_upper[OF p] have "prefix rel rel'" by (auto simp: strict_prefix_def)
  from sole_atD[OF assms(3) e'(1,2) this] have "e' = e" .
  with e' assms(2) show "tree_includes spec e rel" by simp
next
  assume t: "tree_includes spec e rel"
  have "rel \<in> add_ancestors (parent rel) {rel}" using add_ancestors_mono[of "{rel}"] by blast
  with t assms(1,2) show "rel \<in> get_filtered_paths walk spec"
    by (auto simp: in_get_filtered_paths_iff)
qed

lemma at_root_named_path_str: "at_root_named name rel \<Longrightarrow> path_str rel = name"
  by (cases rel) (auto simp: at_root_named_def path_str_def path_name_def)

lemma binary_no_contribution: "is_binary e \<Longrightarrow> filtered_step spec {} e = {}"
  by (simp add: filtered_step_empty tree_includes_def split: option.splits)

lemma get_filtered_paths_filter_binary:
  "get_filtered_paths (filter (\<lambda>e. \<not> is_binary e) walk) spec = get_filtered_paths walk spec"
  by (auto simp: get_filtered_paths_Union binary_no_contribution)


text \<open>
  Claim C2, as stated, says that a binary file that the rules do not exclude still appears
  in the inclusion set. It does not: \<^verbatim>\<open>get_filtered_paths\<close> adds a file only under
  \<^verbatim>\<open>if not is_binary(path)\<close>, as its docstring announces.
\<close>

theorem binary_file_not_in_tree:
  "\<not> match_file (load_ignore_file None) ''logo.png''
   \<and> \<not> match_file (load_ignore_file None) (''logo.png'' @ ''/'')
   \<and> is_binary (binary_file [''logo.png''])
   \<and> [''logo.png''] \<notin> get_filtered_paths [binary_file [''logo.png'']]
                          (match_file (load_ignore_file None))"
  by code_simp


text \<open>
  Claim C2, amended. A binary file is left out of the inclusion set as well as out of the
  document: its path is not a member of the set returned by \<^verbatim>\<open>get_filtered_paths\<close>, it
  is not among the files \<^verbatim>\<open>write_lst\<close> emits, and removing the binary files from the walk
  does not change the inclusion set.
\<close>

theorem binary_excluded_from_tree_and_document:
  assumes "e \<in> set walk" and "e_rel e = Some rel" and "is_binary e" and "sole_at walk e rel"
  shows "rel \<notin> get_filtered_paths walk spec
         \<and> e \<notin> fst ` set (emitted walk spec)
         \<and> get_filtered_paths (filter (\<lambda>e. \<not> is_binary e) walk) spec
             = get_filtered_paths walk spec"
proof -
  have "rel \<notin> get_filtered_paths walk spec"
    using assms by (simp add: sole_in_get_filtered_paths tree_includes_def)
  moreover have "e \<notin> fst ` set (emitted walk spec)"
    using assms(3) by (auto simp: in_emitted_iff)
  ultimately show ?thesis by (simp add: get_filtered_paths_filter_binary)
qed

theorem binary_excluded_from_tree_and_document_witness:
  "binary_file [''logo.png''] \<in> set [binary_file [''logo.png''], text_file [''a.txt''] ''x'']
   \<and> is_binary (binary_file [''logo.png''])
   \<and> sole_at [binary_file [''logo.png''], text_file [''a.txt''] ''x'']
         (binary_file [''logo.png'']) [''logo.png'']
   \<and> [''logo.png''] \<notin> get_filtered_paths [binary_file [''logo.png''], text_file [''a.txt''] ''x'']
                          (match_file (load_ignore_file None))
   \<and> binary_file [''logo.png'']
       \<notin> fst ` set (emitted [binary_file [''logo.png''], text_file [''a.txt''] ''x'']
                       (match_file (load_ignore_file None)))"
proof -
  let ?e = "binary_file [''logo.png'']"
  let ?w = "[binary_file [''logo.png''], text_file [''a.txt''] ''x'']"
  have m: "?e \<in> set ?w" by simp
  have r: "e_rel ?e = Some [''logo.png'']" by (simp add: binary_file_def)
  have b: "is_binary ?e" by (simp add: is_binary_def is_file_def binary_file_def blocksize_def)
  have s: "sole_at ?w ?e [''logo.png'']"
    by (simp add: sole_at_def binary_file_def text_file_def)
  show ?thesis
    using m b s binary_excluded_from_tree_and_document[OF m r b s,
        of "match_file (load_ignore_file None)"]
    by simp
qed


text \<open>
  Claim C1, as stated, says that a file is in the inclusion set exactly when its content is
  emitted. The tree comes from the first walk of the root and the document from the
  second, here the same entries and the output file \<^verbatim>\<open>out.txt\<close> that \<^verbatim>\<open>write_lst\<close> has
  opened in between. Four entries show that neither direction holds: under the rule
  \<^verbatim>\<open>temp/\<close> a text file named \<^verbatim>\<open>temp\<close> is emitted but is not in the set; a file that
  is not binary but cannot be decoded is in the set but is not emitted; an entry that is
  neither a regular file nor a directory and that can be read is emitted but is not in
  the set; and the output file is emitted but is not in the set.
\<close>

theorem tree_and_document_disagree:
  "[''temp''] \<notin> get_filtered_paths
        [text_file [''temp''] ''x'', undecodable_file [''raw.dat''], special_file [''null'']]
        (match_file (load_ignore_file (Some [''temp/''])))
   \<and> (text_file [''temp''] ''x'', [''temp''], ''x'')
       \<in> set (emitted [text_file [''temp''] ''x'', undecodable_file [''raw.dat''],
                        special_file [''null''], text_file [''out.txt''] '''']
                 (match_file (load_ignore_file (Some [''temp/'']))))
   \<and> [''raw.dat''] \<in> get_filtered_paths
        [text_file [''temp''] ''x'', undecodable_file [''raw.dat''], special_file [''null'']]
        (match_file (load_ignore_file (Some [''temp/''])))
   \<and> (undecodable_file [''raw.dat''], [''raw.dat''])
       \<in> set (iter_source_files [text_file [''temp''] ''x'', undecodable_file [''raw.dat''],
                        special_file [''null''], text_file [''out.txt''] '''']
                 (match_file (load_ignore_file (Some [''temp/'']))))
   \<and> undecodable_file [''raw.dat'']
       \<notin> fst ` set (emitted [text_file [''temp''] ''x'', undecodable_file [''raw.dat''],
                        special_file [''null''], text_file [''out.txt''] '''']
                 (match_file (load_ignore_file (Some [''temp/'']))))
   \<and> [''null''] \<notin> get_filtered_paths
        [text_file [''temp''] ''x'', undecodable_file [''raw.dat''], special_file [''null'']]
        (match_file (load_ignore_file (Some [''temp/''])))
   \<and> (special_file [''null''], [''null''], '''')
       \<in> set (emitted [text_file [''temp''] ''x'', undecodable_file [''raw.dat''],
                        special_file [''null''], text_file [''out.txt''] '''']
                 (match_file (load_ignore_file (Some [''temp/'']))))
   \<and> [''out.txt''] \<notin> get_filtered_paths
        [text_file [''temp''] ''x'', undecodable_file [''raw.dat''], special_file [''null'']]
        (match_file (load_ignore_file (Some [''temp/''])))
   \<and> (text_file [''out.txt''] '''', [''out.txt''], '''')
       \<in> set (emitted [text_file [''temp''] ''x'', undecodable_file [''raw.dat''],
                        special_file [''null''], text_file [''out.txt''] '''']
                 (match_file (load_ignore_file (Some [''temp/'']))))"
  by code_simp


text \<open>
  Claim C1, amended. Take an entry that both walks of the root yield, that is a regular
  file, and for which the matcher does not answer differently with a trailing slash than
  without (if it matches the path written with a trailing slash, it matches the path); the
  matcher ignores \<^verbatim>\<open>.lstignore\<close>, as every matcher built by \<^verbatim>\<open>load_ignore_file\<close> does.
  Then the path of the file is in the inclusion set if and only if \<^verbatim>\<open>iter_source_files\<close>
  yields the file and it is not binary; and its content is emitted if and only if its
  path is in the inclusion set and its text can be decoded.
\<close>

theorem tree_and_document_agreement:
  assumes "e \<in> set tree_walk" and "e \<in> set document_walk"
    and "e_rel e = Some rel" and "is_file e" and "sole_at tree_walk e rel"
    and "spec (path_str rel @ ''/'') \<longrightarrow> spec (path_str rel)" and "spec ''.lstignore''"
  shows "(rel \<in> get_filtered_paths tree_walk spec
            \<longleftrightarrow> (e, rel) \<in> set (iter_source_files document_walk spec) \<and> \<not> is_binary e)
         \<and> ((e, rel, content) \<in> set (emitted document_walk spec)
            \<longleftrightarrow> rel \<in> get_filtered_paths tree_walk spec \<and> read_content e = Some content)"
proof -
  have nl: "\<not> at_root_named ''.lstignore'' rel \<or> spec (path_str rel)"
    using assms(7) at_root_named_path_str[of "''.lstignore''" rel] by auto
  have "tree_includes spec e rel \<longleftrightarrow> yields spec e rel \<and> \<not> is_binary e"
    using assms(4,6) nl by (auto simp: tree_includes_def yields_def is_file_def is_dir_def)
  then show ?thesis
    using assms(2,3) by (simp add: sole_in_get_filtered_paths[OF assms(1,3,5)]
        in_iter_source_files_iff in_emitted_iff)
qed

theorem tree_and_document_agreement_witness:
  "text_file [''src'', ''main.py''] ''print(1)''
     \<in> set [directory [''src''], text_file [''src'', ''main.py''] ''print(1)'']
   \<and> text_file [''src'', ''main.py''] ''print(1)''
     \<in> set [directory [''src''], text_file [''src'', ''main.py''] ''print(1)'',
             text_file [''out.txt''] '''']
   \<and> sole_at [directory [''src''], text_file [''src'', ''main.py''] ''print(1)'']
         (text_file [''src'', ''main.py''] ''print(1)'') [''src'', ''main.py'']
   \<and> \<not> match_file (load_ignore_file None) (path_str [''src'', ''main.py''] @ ''/'')
   \<and> match_file (load_ignore_file None) ''.lstignore''
   \<and> [''src'', ''main.py'']
       \<in> get_filtered_paths [directory [''src''], text_file [''src'', ''main.py''] ''print(1)'']
            (match_file (load_ignore_file None))
   \<and> (text_file [''src'', ''main.py''] ''print(1)'', [''src'', ''main.py''], ''print(1)'')
       \<in> set (emitted [directory [''src''], text_file [''src'', ''main.py''] ''print(1)'',
                        text_file [''out.txt''] '''']
                 (match_file (load_ignore_file None)))"
proof -
  let ?e = "text_file [''src'', ''main.py''] ''print(1)''"
  let ?w = "[directory [''src''], text_file [''src'', ''main.py''] ''print(1)'']"
  let ?w' = "[directory [''src''], text_file [''src'', ''main.py''] ''print(1)'',
             text_file [''out.txt''] '''']"
  let ?s = "match_file (load_ignore_file None)"
  have m: "?e \<in> set ?w" by simp
  have m': "?e \<in> set ?w'" by simp
  have r: "e_rel ?e = Some [''src'', ''main.py'']" by (simp add: text_file_def)
  have f: "is_file ?e" by (simp add: is_file_def text_file_def)
  have s: "sole_at ?w ?e [''src'', ''main.py'']"
    by (simp add: sole_at_def directory_def text_file_def)
  have n: "\<not> ?s (path_str [''src'', ''main.py''] @ ''/'')" by code_simp
  then have n': "?s (path_str [''src'', ''main.py''] @ ''/'') \<longrightarrow> ?s (path_str [''src'', ''main.py''])"
    by simp
  have l: "?s ''.lstignore''" by code_simp
  have g: "[''src'', ''main.py''] \<in> get_filtered_paths ?w ?s" by code_simp
  have c: "read_content ?e = Some ''print(1)''" by (simp add: read_content_def text_file_def)
  show ?thesis
    using m m' s n l g c tree_and_document_agreement[OF m m' r f s n' l, of "''print(1)''"]
    by simp
qed


section \<open>The order of the rendered paths\<close>

lemma between_descendant:
  fixes d m q :: "'a::linorder list"
  shows "d < m \<Longrightarrow> m \<le> q \<Longrightarrow> prefix d q \<Longrightarrow> strict_prefix d m"
proof (induction d arbitrary: m q)
  case Nil
  then show ?case by (cases m) auto
next
  case (Cons a d)
  from Cons.prems(3) obtain q' where q: "q = a # q'" "prefix d q'"
    by (cases q) auto
  from Cons.prems(1) obtain b m' where m: "m = b # m'" by (cases m) auto
  from Cons.prems(1,2) have "a = b" "d < m'" "m' \<le> q'"
    unfolding q m by (auto split: if_splits)
  with Cons.IH[OF \<open>d < m'\<close> \<open>m' \<le> q'\<close> q(2)] show ?case
    unfolding m by simp
qed

lemma between_siblings:
  fixes par m :: "'a::linorder list"
  shows "par @ [a] < m \<Longrightarrow> m < par @ [b] \<Longrightarrow> strict_prefix par m"
proof (induction par arbitrary: m)
  case Nil
  then show ?case by (cases m) auto
next
  case (Cons x par)
  from Cons.prems(1) obtain y m' where m: "m = y # m'" by (cases m) auto
  from Cons.prems have "x = y" "par @ [a] < m'" "m' < par @ [b]"
    unfolding m by (auto split: if_splits)
  with Cons.IH[of m'] show ?case unfolding m by simp
qed

lemma sorted_paths_of_strict:
  "distinct included \<Longrightarrow> sorted_wrt (<) (sorted_paths_of included)"
  by (simp add: sorted_paths_of_def strict_sorted_iff)

lemma strict_nth_less:
  fixes ys :: "'a::linorder list"
  shows "sorted_wrt (<) ys \<Longrightarrow> i < j \<Longrightarrow> j < length ys \<Longrightarrow> ys ! i < ys ! j"
  by (simp add: sorted_wrt_nth_less)

lemma strict_less_index:
  fixes ys :: "'a::linorder list"
  assumes "sorted_wrt (<) ys" "i < length ys" "j < length ys" "ys ! i < ys ! j"
  shows "i < j"
proof (rule ccontr)
  assume "\<not> i < j"
  then have "j = i \<or> j < i" by auto
  then show False
  proof
    assume "j = i" with assms(4) show False by simp
  next
    assume "j < i"
    from strict_nth_less[OF assms(1) this assms(2)] assms(4) show False by simp
  qed
qed

lemma strict_prefix_less:
  fixes d q :: "'a::linorder list"
  shows "strict_prefix d q \<Longrightarrow> d < q"
proof (induction d arbitrary: q)
  case Nil then show ?case by (cases q) auto
next
  case (Cons a d) then show ?case by (cases q) auto
qed

lemma directory_before_first_descendant:
  fixes ys :: "'a::linorder list list"
  assumes s: "sorted_wrt (<) ys" and i: "i < length ys"
    and q: "q \<in> set ys" "strict_prefix (ys ! i) q"
  shows "Suc i < length ys \<and> strict_prefix (ys ! i) (ys ! Suc i)"
proof -
  from q(1) obtain j where j: "j < length ys" "ys ! j = q" by (auto simp: in_set_conv_nth)
  have "ys ! i < ys ! j" using q(2) j(2) by (simp add: strict_prefix_less)
  from strict_less_index[OF s i j(1) this] have ij: "i < j" .
  then have si: "Suc i < length ys" using j(1) by simp
  have a: "ys ! i < ys ! Suc i" using strict_nth_less[OF s _ si, of i] by simp
  have b: "ys ! Suc i \<le> q"
  proof (cases "Suc i = j")
    case True with j(2) show ?thesis by simp
  next
    case False
    with ij have "Suc i < j" by simp
    from strict_nth_less[OF s this j(1)] j(2) show ?thesis by simp
  qed
  from between_descendant[OF a b] q(2) have "strict_prefix (ys ! i) (ys ! Suc i)"
    by (simp add: strict_prefix_def)
  with si show ?thesis by simp
qed

lemma siblings_enclose_descendants:
  fixes ys :: "string list list"
  assumes s: "sorted_wrt (<) ys" and o: "i < k" "k < j" "j < length ys"
    and n: "ys ! i \<noteq> []" "ys ! j \<noteq> []" and p: "parent (ys ! i) = parent (ys ! j)"
  shows "strict_prefix (parent (ys ! i)) (ys ! k)"
proof -
  have a: "ys ! i < ys ! k" using strict_nth_less[OF s o(1)] o(2,3) by simp
  have b: "ys ! k < ys ! j" using strict_nth_less[OF s o(2,3)] .
  have i: "ys ! i = parent (ys ! i) @ [last (ys ! i)]" using n(1) by (simp add: parent_def)
  have j: "ys ! j = parent (ys ! i) @ [last (ys ! j)]" using n(2) p by (simp add: parent_def)
  from a i have a': "parent (ys ! i) @ [last (ys ! i)] < ys ! k" by simp
  from b j have b': "ys ! k < parent (ys ! i) @ [last (ys ! j)]" by simp
  from between_siblings[OF a' b'] show ?thesis .
qed


text \<open>
  Claim C7, as stated, says that under the sort the siblings sharing a parent are grouped
  contiguously. In the sorted list the descendants of a sibling stand between it and the
  next sibling: \<^verbatim>\<open>a\<close> and \<^verbatim>\<open>b\<close> share the root as parent, and \<^verbatim>\<open>a/x\<close>, of another
  parent, stands between them.
\<close>

theorem siblings_not_adjacent:
  "sorted_paths_of [[''b''], [''a'', ''x''], [''a'']] = [[''a''], [''a'', ''x''], [''b'']]
   \<and> parent [''a''] = parent [''b'']
   \<and> parent [''a'', ''x''] \<noteq> parent [''a'']"
  by code_simp


text \<open>
  Claim C7, amended. The renderer sorts the paths of the inclusion set lexicographically
  over their segment sequences (the result is sorted, without duplicates, and has the same
  elements; the order on paths is the lexicographic extension of the order on segments).
  Under that sort every directory that has a descendant in the set stands immediately
  before a descendant, its first one; and every path standing between two siblings is a
  descendant of their common parent, so that the siblings of one parent are separated
  only by their own descendants.
\<close>

theorem sorted_paths_tree_order:
  assumes "distinct included"
  shows "sorted (sorted_paths_of included)
         \<and> distinct (sorted_paths_of included)
         \<and> set (sorted_paths_of included) = set included
         \<and> ((p::path) < p' \<longleftrightarrow> (p, p') \<in> lexord {(s, t). s < t})
         \<and> (i < length (sorted_paths_of included)
              \<and> q \<in> set included \<and> strict_prefix (sorted_paths_of included ! i) q
            \<longrightarrow> Suc i < length (sorted_paths_of included)
                \<and> strict_prefix (sorted_paths_of included ! i) (sorted_paths_of included ! Suc i))
         \<and> (i < k \<and> k < j \<and> j < length (sorted_paths_of included)
              \<and> sorted_paths_of included ! i \<noteq> [] \<and> sorted_paths_of included ! j \<noteq> []
              \<and> parent (sorted_paths_of included ! i) = parent (sorted_paths_of included ! j)
            \<longrightarrow> strict_prefix (parent (sorted_paths_of included ! i))
                  (sorted_paths_of included ! k))"
proof -
  let ?ys = "sorted_paths_of included"
  have s: "sorted_wrt (<) ?ys" using assms by (rule sorted_paths_of_strict)
  have e: "set ?ys = set included" by (simp add: sorted_paths_of_def)
  have 1: "sorted ?ys \<and> distinct ?ys \<and> set ?ys = set included"
    using assms by (simp add: sorted_paths_of_def)
  have 2: "(p < p') = ((p, p') \<in> lexord {(s, t). s < t})" by (simp add: list_less_def)
  have 3: "i < length ?ys \<and> q \<in> set included \<and> strict_prefix (?ys ! i) q
            \<longrightarrow> Suc i < length ?ys \<and> strict_prefix (?ys ! i) (?ys ! Suc i)"
    using directory_before_first_descendant[OF s, of i q] e by blast
  have 4: "i < k \<and> k < j \<and> j < length ?ys \<and> ?ys ! i \<noteq> [] \<and> ?ys ! j \<noteq> []
              \<and> parent (?ys ! i) = parent (?ys ! j)
            \<longrightarrow> strict_prefix (parent (?ys ! i)) (?ys ! k)"
    using siblings_enclose_descendants[OF s, of i k j] by blast
  from 1 2 3 4 show ?thesis by blast
qed

theorem sorted_paths_tree_order_witness:
  "distinct [[''b''], [''a'', ''x''], [''a'']]
   \<and> sorted_paths_of [[''b''], [''a'', ''x''], [''a'']] = [[''a''], [''a'', ''x''], [''b'']]
   \<and> sorted [[''a''], [''a'', ''x''], [''b'']]
   \<and> strict_prefix [''a''] [''a'', ''x'']
   \<and> strict_prefix (parent [''a'']) [''a'', ''x'']"
proof -
  let ?inc = "[[''b''], [''a'', ''x''], [''a'']]"
  have d: "distinct ?inc" by simp
  have v: "sorted_paths_of ?inc = [[''a''], [''a'', ''x''], [''b'']]" by code_simp
  show ?thesis
    using d v sorted_paths_tree_order[OF d, of "[''a'']" "[''b'']" 0 "[''a'', ''x'']" 1 2]
    by (simp add: parent_def)
qed



section \<open>The matcher\<close>

lemma split_on_no_sep: "c \<notin> set s \<Longrightarrow> split_on c s = [s]"
  by (induction s) auto

lemma split_on_segment: "c \<notin> set s \<Longrightarrow> split_on c (s @ c # rest) = s # split_on c rest"
  by (induction s) auto

lemma split_on_nonempty: "split_on c s \<noteq> []"
  by (induction s) (auto split: list.splits)

lemma split_on_join:
  "p \<noteq> [] \<Longrightarrow> list_all (\<lambda>s. CHR ''/'' \<notin> set s) p
     \<Longrightarrow> split_on CHR ''/'' (join_with ''/'' p @ rest) = butlast p @ split_on CHR ''/'' (last p @ rest)"
proof (induction p rule: induct_list012)
  case 1 then show ?case by simp
next
  case (2 x) then show ?case by simp
next
  case (3 x y zs)
  then have "split_on CHR ''/'' (join_with ''/'' (y # zs) @ rest)
             = butlast (y # zs) @ split_on CHR ''/'' (last (y # zs) @ rest)" by simp
  with "3.prems" show ?case by (simp add: split_on_segment)
qed

lemma valid_path_no_slash: "valid_path p \<Longrightarrow> list_all (\<lambda>s. CHR ''/'' \<notin> set s) p"
  unfolding valid_path_def list_all_iff by blast

lemma valid_path_nonempty_segments: "valid_path p \<Longrightarrow> filter (\<lambda>seg. seg \<noteq> []) p = p"
  unfolding valid_path_def list_all_iff by (intro filter_True) blast

lemma segments_of_path_str:
  assumes "valid_path p" "p \<noteq> []"
  shows "segments_of (path_str p) = p"
proof -
  have l: "CHR ''/'' \<notin> set (last p)"
    using valid_path_no_slash[OF assms(1)] assms(2) by (simp add: list_all_iff)
  have "split_on CHR ''/'' (join_with ''/'' p @ []) = butlast p @ split_on CHR ''/'' (last p @ [])"
    using assms by (intro split_on_join valid_path_no_slash)
  then have "split_on CHR ''/'' (join_with ''/'' p) = p"
    using l assms(2) by (simp add: split_on_no_sep)
  then show ?thesis
    using assms by (simp add: segments_of_def path_str_def valid_path_nonempty_segments)
qed

lemma segments_of_path_str_slash:
  assumes "valid_path p" "p \<noteq> []"
  shows "segments_of (path_str p @ ''/'') = p"
proof -
  have l: "CHR ''/'' \<notin> set (last p)"
    using valid_path_no_slash[OF assms(1)] assms(2) by (simp add: list_all_iff)
  have "split_on CHR ''/'' (join_with ''/'' p @ ''/'') = butlast p @ split_on CHR ''/'' (last p @ ''/'')"
    using assms by (intro split_on_join valid_path_no_slash)
  then have "split_on CHR ''/'' (join_with ''/'' p @ ''/'') = p @ [[]]"
    using l assms(2) by (simp add: split_on_segment)
  then show ?thesis
    using assms by (simp add: segments_of_def path_str_def valid_path_nonempty_segments)
qed

lemma rule_matches_segmentI:
  assumes "\<not> anchored r" and "glob_segments r = [name]" and "name \<noteq> ''**''"
    and "i < length segs" and "seg_match name (segs ! i)"
    and "dir_only r \<Longrightarrow> Suc i < length segs \<or> is_directory"
  shows "rule_matches r segs is_directory"
proof -
  let ?start = "drop i segs"
  have s: "?start \<in> set (starts_of r segs)"
    using assms(1,4) by (auto simp: starts_of_def)
  have t: "take 1 ?start = [segs ! i]"
    using assms(4) by (simp add: take_Suc_conv_app_nth hd_drop_conv_nth take_Suc)
  have k: "(1::nat) \<in> set [1 ..< Suc (length ?start)]" using assms(4) by (simp; arith)
  have m: "segs_match (glob_segments r) (take 1 ?start)"
    using assms(2,3,5) t by simp
  have d: "(if dir_only r then 1 < length ?start \<or> is_directory else True)"
    using assms(6) by auto
  show ?thesis
    unfolding rule_matches_def list_ex_iff using s k m d by blast
qed

lemma from_lines_append: "from_lines (a @ b) = from_lines a @ from_lines b"
  by (simp add: from_lines_def List.map_filter_def)

lemma from_lines_default_ignores:
  "from_lines default_ignores = [git_rule, lstignore_rule, lst_txt_rule]"
  by code_simp

lemma load_ignore_file_rules:
  "\<exists>user. load_ignore_file ignore_file = user @ [git_rule, lstignore_rule, lst_txt_rule]"
  by (simp add: load_ignore_file_def from_lines_append from_lines_default_ignores)

lemma match_file_floor:
  assumes "rules = user @ [git_rule, lstignore_rule, lst_txt_rule]"
    and "rule_matches git_rule (segments_of file) (file \<noteq> [] \<and> last file = CHR ''/'')
         \<or> rule_matches lstignore_rule (segments_of file) (file \<noteq> [] \<and> last file = CHR ''/'')
         \<or> rule_matches lst_txt_rule (segments_of file) (file \<noteq> [] \<and> last file = CHR ''/'')"
  shows "match_file rules file"
  using assms(2) unfolding assms(1) match_file_def Let_def foldl_append
  by (auto simp: git_rule_def lstignore_rule_def lst_txt_rule_def)


lemma default_names_match:
  "seg_match ''.git'' ''.git''" "seg_match ''.lstignore'' ''.lstignore''"
  "seg_match ''lst.txt'' ''lst.txt''"
  by simp_all

lemma segment_rule_matches:
  assumes "name \<in> set segs"
  shows "name = ''.lstignore'' \<Longrightarrow> rule_matches lstignore_rule segs is_directory"
    and "name = ''lst.txt'' \<Longrightarrow> rule_matches lst_txt_rule segs is_directory"
proof -
  from assms obtain i where i: "i < length segs" "segs ! i = name"
    by (auto simp: in_set_conv_nth)
  show "name = ''.lstignore'' \<Longrightarrow> rule_matches lstignore_rule segs is_directory"
    using i by (intro rule_matches_segmentI[where name = "''.lstignore''" and i = i])
      (simp_all add: lstignore_rule_def)
  show "name = ''lst.txt'' \<Longrightarrow> rule_matches lst_txt_rule segs is_directory"
    using i by (intro rule_matches_segmentI[where name = "''lst.txt''" and i = i])
      (simp_all add: lst_txt_rule_def)
qed

lemma git_rule_matches_beneath:
  assumes "''.git'' \<in> set (butlast segs)"
  shows "rule_matches git_rule segs is_directory"
proof -
  from assms obtain i where i: "i < length (butlast segs)" "butlast segs ! i = ''.git''"
    by (auto simp: in_set_conv_nth)
  then have "Suc i < length segs" "segs ! i = ''.git''" by (simp_all add: nth_butlast)
  then show ?thesis
    by (intro rule_matches_segmentI[where name = "''.git''" and i = i])
      (simp_all add: git_rule_def)
qed

lemma git_rule_matches_directory:
  assumes "''.git'' \<in> set segs"
  shows "rule_matches git_rule segs True"
proof -
  from assms obtain i where i: "i < length segs" "segs ! i = ''.git''"
    by (auto simp: in_set_conv_nth)
  then show ?thesis
    by (intro rule_matches_segmentI[where name = "''.git''" and i = i])
      (simp_all add: git_rule_def)
qed

lemma foldl_last_match:
  "foldl (\<lambda>ignored r. if P r then \<not> negation r else ignored) acc rules
     = (if filter P rules = [] then acc else \<not> negation (last (filter P rules)))"
  by (induction rules rule: rev_induct) simp_all


text \<open>
  Claim C4 (the last matching rule decides). \<^verbatim>\<open>match_file\<close> goes through the compiled
  rules in the order of their declaration and answers with the polarity of the last rule
  that matches the path: ignored when that rule is plain, not ignored when it is a
  negation, and not ignored when no rule matches. \<^verbatim>\<open>load_ignore_file\<close> keeps the order of
  the lines. Under the rules \<^verbatim>\<open>*.log\<close> and \<^verbatim>\<open>!keep.log\<close> the file \<^verbatim>\<open>keep.log\<close> is
  included, \<^verbatim>\<open>other.log\<close> is excluded, and \<^verbatim>\<open>README.md\<close>, which no rule matches, is
  included; so it is in the set \<^verbatim>\<open>get_filtered_paths\<close> returns.
\<close>

theorem last_matching_rule_decides:
  "match_file rules file
     = (let matching = filter (\<lambda>r. rule_matches r (segments_of file)
                                      (file \<noteq> [] \<and> last file = CHR ''/'')) rules
        in if matching = [] then False else \<not> negation (last matching))
   \<and> map pattern_text (load_ignore_file (Some [''*.log'', ''!keep.log'']))
       = [''*.log'', ''!keep.log'', ''.git/'', ''.lstignore'', ''lst.txt'']
   \<and> \<not> match_file (load_ignore_file (Some [''*.log'', ''!keep.log''])) ''keep.log''
   \<and> match_file (load_ignore_file (Some [''*.log'', ''!keep.log''])) ''other.log''
   \<and> \<not> match_file (load_ignore_file (Some [''*.log'', ''!keep.log''])) ''README.md''
   \<and> get_filtered_paths
         [text_file [''keep.log''] ''k'', text_file [''other.log''] ''o'', text_file [''README.md''] ''r'']
         (match_file (load_ignore_file (Some [''*.log'', ''!keep.log''])))
       = {[''keep.log''], [''README.md'']}"
proof -
  have g: "match_file rules file
     = (let matching = filter (\<lambda>r. rule_matches r (segments_of file)
                                      (file \<noteq> [] \<and> last file = CHR ''/'')) rules
        in if matching = [] then False else \<not> negation (last matching))"
    by (simp add: match_file_def Let_def foldl_last_match)
  have c: "map pattern_text (load_ignore_file (Some [''*.log'', ''!keep.log'']))
       = [''*.log'', ''!keep.log'', ''.git/'', ''.lstignore'', ''lst.txt'']
   \<and> \<not> match_file (load_ignore_file (Some [''*.log'', ''!keep.log''])) ''keep.log''
   \<and> match_file (load_ignore_file (Some [''*.log'', ''!keep.log''])) ''other.log''
   \<and> \<not> match_file (load_ignore_file (Some [''*.log'', ''!keep.log''])) ''README.md''
   \<and> get_filtered_paths
         [text_file [''keep.log''] ''k'', text_file [''other.log''] ''o'', text_file [''README.md''] ''r'']
         (match_file (load_ignore_file (Some [''*.log'', ''!keep.log''])))
       = {[''keep.log''], [''README.md'']}"
    by code_simp
  from g c show ?thesis by blast
qed


text \<open>
  What the three default rules ensure. For every content of \<^verbatim>\<open>.lstignore\<close> (and when
  there is none), the matcher built by \<^verbatim>\<open>load_ignore_file\<close> ignores, at every depth, each
  path named \<^verbatim>\<open>.lstignore\<close> or \<^verbatim>\<open>lst.txt\<close> and each path beneath a \<^verbatim>\<open>.git\<close>
  directory, and it ignores a \<^verbatim>\<open>.git\<close> directory itself when the path is passed as a
  directory, with a trailing slash: the three default rules are the last ones, so that no
  user rule, negations included, overrides them.
\<close>

lemma default_rules_floor:
  assumes "valid_path p" and "p \<noteq> []"
  shows "(last p = ''.lstignore'' \<or> last p = ''lst.txt'' \<or> ''.git'' \<in> set (butlast p)
            \<longrightarrow> match_file (load_ignore_file ignore_file) (path_str p))
         \<and> (last p = ''.lstignore'' \<or> last p = ''lst.txt'' \<or> ''.git'' \<in> set p
            \<longrightarrow> match_file (load_ignore_file ignore_file) (path_str p @ ''/''))"
proof -
  obtain user where u: "load_ignore_file ignore_file = user @ [git_rule, lstignore_rule, lst_txt_rule]"
    using load_ignore_file_rules by blast
  have s1: "segments_of (path_str p) = p" using assms by (rule segments_of_path_str)
  have s2: "segments_of (path_str p @ ''/'') = p" using assms by (rule segments_of_path_str_slash)
  have l: "last p \<in> set p" using assms(2) by simp
  have a: "match_file (load_ignore_file ignore_file) (path_str p)"
    if "last p = ''.lstignore'' \<or> last p = ''lst.txt'' \<or> ''.git'' \<in> set (butlast p)"
    using that l segment_rule_matches[of "last p" p] git_rule_matches_beneath[of p]
    by (intro match_file_floor[OF u]) (auto simp: s1)
  have b: "match_file (load_ignore_file ignore_file) (path_str p @ ''/'')"
    if "last p = ''.lstignore'' \<or> last p = ''lst.txt'' \<or> ''.git'' \<in> set p"
    using that l segment_rule_matches[of "last p" p] git_rule_matches_directory[of p]
    by (intro match_file_floor[OF u]) (auto simp: s2)
  from a b show ?thesis by blast
qed

lemma default_rules_override_negations:
  "valid_path [''sub'', ''.git'', ''config'']
   \<and> match_file (load_ignore_file (Some [''!.git/'', ''!*''])) (path_str [''sub'', ''.git'', ''config''])
   \<and> match_file (load_ignore_file (Some [''!.git/'', ''!*''])) (path_str [''sub'', ''.git'', ''config''] @ ''/'')"
proof -
  have v: "valid_path [''sub'', ''.git'', ''config'']" by (simp add: valid_path_def)
  have n: "[''sub'', ''.git'', ''config''] \<noteq> []" by simp
  show ?thesis
    using v default_rules_floor[OF v n, of "Some [''!.git/'', ''!*'']"] by simp
qed



lemma loaded_matcher_ignores_lstignore:
  "match_file (load_ignore_file ignore_file) ''.lstignore''"
proof -
  have v: "valid_path [''.lstignore'']" by (simp add: valid_path_def)
  from default_rules_floor[OF v, of ignore_file] show ?thesis by (simp add: path_str_def)
qed


text \<open>
  Claim C8 (the defaults, and the output file of the run, are always ignored). The claim
  holds of \<^verbatim>\<open>.git\<close>, of \<^verbatim>\<open>.lstignore\<close> and of the name \<^verbatim>\<open>lst.txt\<close>, as shown above,
  and fails of the output file the user chooses: \<^verbatim>\<open>main\<close> passes no output name to
  \<^verbatim>\<open>load_ignore_file\<close>, whose list of defaults holds the fixed name \<^verbatim>\<open>lst.txt\<close>. In a
  run with \<^verbatim>\<open>-o out.txt\<close> in the root, the matcher does not ignore \<^verbatim>\<open>out.txt\<close>; the
  file, which \<^verbatim>\<open>write_lst\<close> has opened before its walk, is emitted as one more source
  file of the document, and a later run shows it in the tree.
\<close>

theorem output_file_ingested:
  "main run_out_txt
     = Inr (generate_tree_string ''root'' (first_walk run_out_txt)
              (match_file (load_ignore_file None)),
            write_lst True True (second_walk run_out_txt) (match_file (load_ignore_file None))
              (generate_tree_string ''root'' (first_walk run_out_txt)
                 (match_file (load_ignore_file None))))
   \<and> \<not> match_file (load_ignore_file None) (arg_output run_out_txt)
   \<and> \<not> match_file (load_ignore_file None) (arg_output run_out_txt @ ''/'')
   \<and> (text_file [''out.txt''] '''', [''out.txt''], '''')
       \<in> set (emitted (second_walk run_out_txt) (match_file (load_ignore_file None)))
   \<and> [''out.txt''] \<in> get_filtered_paths (second_walk run_out_txt)
                       (match_file (load_ignore_file None))"
proof -
  have a: "main run_out_txt
     = Inr (generate_tree_string ''root'' (first_walk run_out_txt)
              (match_file (load_ignore_file None)),
            write_lst True True (second_walk run_out_txt) (match_file (load_ignore_file None))
              (generate_tree_string ''root'' (first_walk run_out_txt)
                 (match_file (load_ignore_file None))))"
    by (simp add: main_def run_out_txt_def Let_def)
  have b: "\<not> match_file (load_ignore_file None) (arg_output run_out_txt)
   \<and> \<not> match_file (load_ignore_file None) (arg_output run_out_txt @ ''/'')
   \<and> (text_file [''out.txt''] '''', [''out.txt''], '''')
       \<in> set (emitted (second_walk run_out_txt) (match_file (load_ignore_file None)))
   \<and> [''out.txt''] \<in> get_filtered_paths (second_walk run_out_txt)
                       (match_file (load_ignore_file None))"
    by code_simp
  from a b show ?thesis by blast
qed


text \<open>
  Claim C3 (a directory-only rule and a file of the same name). The claim holds of
  \<^verbatim>\<open>iter_source_files\<close> and fails of \<^verbatim>\<open>get_filtered_paths\<close>, which also asks the matcher
  about the path with a slash appended, whether the entry is a directory or not. For every
  matcher that matches \<^verbatim>\<open>temp/\<close> (a directory of that name, as the rule \<^verbatim>\<open>temp/\<close>
  demands) and does not match \<^verbatim>\<open>temp\<close>, a regular file named \<^verbatim>\<open>temp\<close> in the root is
  yielded for the document but is missing from the inclusion set.
\<close>

theorem directory_rule_drops_file_from_tree:
  assumes "e \<in> set walk" and "e_rel e = Some [''temp'']" and "is_file e"
    and "sole_at walk e [''temp'']"
    and "spec ''temp/''" and "\<not> spec ''temp''"
  shows "[''temp''] \<notin> get_filtered_paths walk spec
         \<and> (e, [''temp'']) \<in> set (iter_source_files walk spec)"
proof -
  have "\<not> tree_includes spec e [''temp'']"
    using assms(5) by (simp add: tree_includes_def path_str_def)
  then have a: "[''temp''] \<notin> get_filtered_paths walk spec"
    by (simp add: sole_in_get_filtered_paths[OF assms(1,2,4)])
  have "yields spec e [''temp'']"
    using assms(3,6)
    by (simp add: yields_def is_file_def is_dir_def path_str_def at_root_named_def
        path_name_def output_filename_def)
  with assms(1,2) have "(e, [''temp'']) \<in> set (iter_source_files walk spec)"
    by (simp add: in_iter_source_files_iff)
  with a show ?thesis by simp
qed

theorem directory_rule_drops_file_from_tree_witness:
  "match_file (load_ignore_file (Some [''temp/''])) ''temp/''
   \<and> \<not> match_file (load_ignore_file (Some [''temp/''])) ''temp''
   \<and> [''temp''] \<notin> get_filtered_paths [text_file [''temp''] ''x'']
                      (match_file (load_ignore_file (Some [''temp/''])))
   \<and> (text_file [''temp''] ''x'', [''temp''])
       \<in> set (iter_source_files [text_file [''temp''] ''x'']
                 (match_file (load_ignore_file (Some [''temp/'']))))"
proof -
  let ?e = "text_file [''temp''] ''x''"
  let ?s = "match_file (load_ignore_file (Some [''temp/'']))"
  have m: "?e \<in> set [?e]" by simp
  have r: "e_rel ?e = Some [''temp'']" by (simp add: text_file_def)
  have f: "is_file ?e" by (simp add: is_file_def text_file_def)
  have s: "sole_at [?e] ?e [''temp'']" by (simp add: sole_at_def text_file_def)
  have d: "?s ''temp/''" by code_simp
  have n: "\<not> ?s ''temp''" by code_simp
  show ?thesis
    using d n directory_rule_drops_file_from_tree[OF m r f s d n] by simp
qed


end
